theory Spec2Isabelle
  imports Main "HOL-Library.Log_Nat"
begin

section \<open>Data model of search.go\<close>

text \<open>
  A Go \<open>error\<close> value is modelled by its message; the \<open>nil\<close> error is \<open>None\<close> of
  \<open>error option\<close>. A function returning \<open>(value, error)\<close> whose two results are both
  meaningful (\<open>IsDone\<close>, \<open>Search\<close>) returns a pair; the REST calls, whose value is
  ignored on error, return a sum with the error on the left.
\<close>

datatype error = Error string

text \<open>
  A \<open>time.Time\<close> holds a wall-clock instant, counted here in nanoseconds on an
  unbounded time line (instant \<open>0\<close> is the zero \<open>time.Time\<close>, January 1 of year 1,
  UTC), and, when it comes from \<open>time.Now()\<close>, a reading of the monotonic clock in
  nanoseconds. The wall clock is what \<open>Format\<close> prints and what is sent to the server.
  A \<open>time.Duration\<close> is a signed 64-bit count of nanoseconds.
\<close>

datatype time = Time (wall: int) (monotonic: "int option")

type_synonym duration = int

record SearchOptions =
  MaxCount :: int
  UseEarliestTime :: bool
  EarliestTime :: time
  UseLatestTime :: bool
  LatestTime :: time
  AllowPartition :: bool

text \<open>
  \<open>SearchJobStatus\<close>: the two anonymous struct slices of the Go type. The fields of
  \<open>Content\<close> carry their JSON names, since \<open>IsDone\<close> is also the method.
\<close>

record StatusMessage =
  Type :: string
  Message :: string

record StatusContent =
  isDone :: bool
  isFailed :: bool

record StatusEntry =
  Content :: StatusContent

record SearchJobStatus =
  Messages :: "StatusMessage list"
  Entry :: "StatusEntry list"

definition DEFAULT_MAX_COUNT :: int where
  "DEFAULT_MAX_COUNT = 10000"

definition SEARCH_WAIT :: nat where
  "SEARCH_WAIT = 5"

definition PARTITION_COUNT :: nat where
  "PARTITION_COUNT = 5"

section \<open>SearchJobStatus.IsDone\<close>

text \<open>
  \<open>fmt.Sprintf("%s: %s\n", e.Type, e.Message)\<close>: the rendering of one diagnostic entry.
\<close>

definition render_message :: "StatusMessage \<Rightarrow> string" where
  "render_message e = Type e @ '': '' @ Message e @ [CHR 0x0A]"

text \<open>
  The loop \<open>for _, e := range s.Messages { errorMsg = fmt.Sprintf(...) }\<close>: each
  iteration assigns \<open>errorMsg\<close> (it does not append to it).
\<close>

fun message_loop :: "StatusMessage list \<Rightarrow> string \<Rightarrow> string" where
  "message_loop [] errorMsg = errorMsg"
| "message_loop (e # es) errorMsg = message_loop es (render_message e)"

definition IsDone :: "SearchJobStatus \<Rightarrow> bool \<times> error option" where
  "IsDone s =
     (case Entry s of
        [] \<Rightarrow> (False, None)
      | e0 # _ \<Rightarrow>
          if isDone (Content e0) \<and> \<not> isFailed (Content e0) then (True, None)
          else if isFailed (Content e0) then (True, Some (Error (message_loop (Messages s) [])))
          else (False, None))"

text \<open>
  The message the specification asks for: all diagnostic entries, rendered and
  concatenated in order.
\<close>

definition all_messages :: "SearchJobStatus \<Rightarrow> string" where
  "all_messages s = concat (map render_message (Messages s))"

section \<open>The time and float64 operations the partitioning uses\<close>

text \<open>
  Go's standard library. A \<open>Time\<close> is a wall-clock instant, in nanoseconds, and may
  carry a monotonic-clock reading, an \<open>int64\<close> (times from \<open>time.Now()\<close> do).
  \<open>t.Sub(u)\<close> is \<open>t - u\<close>, taken on the monotonic readings alone when both times
  carry one and on the wall clock otherwise, and the maximum (minimum) duration when
  the difference does not fit a \<open>Duration\<close>. \<open>t.Add(d)\<close> adds \<open>d\<close> to the wall clock
  and to the monotonic reading, and drops the reading when the sum does not fit it.
  Integer division and remainder truncate toward zero; \<open>int64\<close> multiplication wraps
  around.
\<close>

definition maxDuration :: duration where
  "maxDuration = 2 ^ 63 - 1"

definition minDuration :: duration where
  "minDuration = - (2 ^ 63)"

definition Second :: duration where
  "Second = 1000000000"

definition saturate :: "int \<Rightarrow> duration" where
  "saturate d =
     (if d > maxDuration then maxDuration
      else if d < minDuration then minDuration
      else d)"

definition Sub :: "time \<Rightarrow> time \<Rightarrow> duration" where
  "Sub t u =
     (case (monotonic t, monotonic u) of
        (Some a, Some b) \<Rightarrow> saturate (a - b)
      | _ \<Rightarrow> saturate (wall t - wall u))"

definition Add :: "time \<Rightarrow> duration \<Rightarrow> time" where
  "Add t d =
     Time (wall t + d)
       (case monotonic t of
          None \<Rightarrow> None
        | Some m \<Rightarrow> if m + d < minDuration \<or> maxDuration < m + d then None else Some (m + d))"

definition wrap64 :: "int \<Rightarrow> int" where
  "wrap64 x = (x + 2 ^ 63) mod 2 ^ 64 - 2 ^ 63"

definition go_quot :: "int \<Rightarrow> int \<Rightarrow> int" where
  "go_quot a b = sgn a * sgn b * (\<bar>a\<bar> div \<bar>b\<bar>)"

definition go_rem :: "int \<Rightarrow> int \<Rightarrow> int" where
  "go_rem a b = a - b * go_quot a b"

text \<open>
  A finite \<open>float64\<close> is the rational number it denotes. Every operation rounds its
  exact result to the nearest number with a 53-bit significand, ties to the even
  significand: \<open>f64_exponent x\<close> is \<open>\<lfloor>log\<^sub>2 \<bar>x\<bar>\<rfloor>\<close>, so \<open>pow2 (f64_exponent x - 52)\<close>
  is the spacing of the \<open>float64\<close> numbers around \<open>x\<close>. (Overflow and subnormal numbers
  are left out: the values computed here are \<open>0\<close> or lie between \<open>2\<^sup>-\<^sup>3\<^sup>0\<close> and \<open>2\<^sup>3\<^sup>4\<close>.)
\<close>

definition pow2 :: "int \<Rightarrow> rat" where
  "pow2 e = (if 0 \<le> e then 2 ^ nat e else 1 / 2 ^ nat (- e))"

definition f64_exponent :: "rat \<Rightarrow> int" where
  "f64_exponent x =
     (let (p, q) = quotient_of \<bar>x\<bar>; e0 = bitlen p - bitlen q
      in if pow2 e0 \<le> \<bar>x\<bar> then e0 else e0 - 1)"

definition round_even :: "rat \<Rightarrow> int" where
  "round_even x =
     (let f = \<lfloor>x\<rfloor>; r = x - of_int f
      in if r < 1 / 2 then f else if 1 / 2 < r then f + 1 else if even f then f else f + 1)"

definition f64_round :: "rat \<Rightarrow> rat" where
  "f64_round x =
     (if x = 0 then 0
      else let u = pow2 (f64_exponent x - 52) in of_int (round_even (x / u)) * u)"

definition f64_add :: "rat \<Rightarrow> rat \<Rightarrow> rat" where
  "f64_add x y = f64_round (x + y)"

definition f64_div :: "rat \<Rightarrow> rat \<Rightarrow> rat" where
  "f64_div x y = f64_round (x / y)"

text \<open>
  \<open>Duration.Seconds\<close>:
  \<^verbatim>\<open>sec := d / Second; nsec := d % Second; return float64(sec) + float64(nsec)/1e9\<close>.
  Both conversions are exact (\<open>\<bar>sec\<bar> < 2\<^sup>3\<^sup>4\<close>, \<open>\<bar>nsec\<bar> < 10\<^sup>9\<close>).
\<close>

definition Seconds :: "duration \<Rightarrow> rat" where
  "Seconds d =
     (let sec = go_quot d Second; nsec = go_rem d Second
      in f64_add (of_int sec) (f64_div (of_int nsec) 1000000000))"

section \<open>Partitioning the time window\<close>

text \<open>
  \<open>d := math.Ceil(LatestTime.Sub(EarliestTime).Seconds() / PARTITION_COUNT)\<close>, a whole
  number of seconds held in a \<open>float64\<close>.
\<close>

definition partition_seconds :: "SearchOptions \<Rightarrow> int" where
  "partition_seconds searchOptions =
     \<lceil>f64_div (Seconds (Sub (LatestTime searchOptions) (EarliestTime searchOptions)))
        (of_nat PARTITION_COUNT)\<rceil>"

text \<open>
  \<open>time.Duration(d) * time.Second\<close>, the step added to \<open>startT\<close>. The conversion of the
  whole number \<open>d\<close> to \<open>int64\<close> is exact (a \<open>Duration\<close> holds fewer than \<open>2\<^sup>3\<^sup>4\<close> seconds,
  so \<open>\<bar>d\<bar> < 2\<^sup>3\<^sup>2\<close>).
\<close>

definition partition_step :: "SearchOptions \<Rightarrow> duration" where
  "partition_step searchOptions = wrap64 (partition_seconds searchOptions * Second)"

text \<open>
  The loop \<open>for i := 0; i < PARTITION_COUNT; i++\<close>: \<open>endT = startT.Add(step)\<close>, the
  goroutine is started with \<open>(i, startT, endT)\<close>, then \<open>startT = endT\<close>. The first
  argument counts the iterations left.
\<close>

fun partition_loop :: "nat \<Rightarrow> nat \<Rightarrow> duration \<Rightarrow> time \<Rightarrow> (nat \<times> time \<times> time) list" where
  "partition_loop 0 i step startT = []"
| "partition_loop (Suc k) i step startT =
     (let endT = Add startT step
      in (i, startT, endT) # partition_loop k (Suc i) step endT)"

definition partition_windows :: "SearchOptions \<Rightarrow> (nat \<times> time \<times> time) list" where
  "partition_windows searchOptions =
     partition_loop PARTITION_COUNT 0 (partition_step searchOptions) (EarliestTime searchOptions)"

text \<open>
  The head of each goroutine: \<open>partitionSearchOptions := searchOptions\<close>, then its two
  time fields are set. The result lists, per goroutine, the arguments of its call
  \<open>c.Search(searchQuery, partitionSearchOptions)\<close>.
\<close>

definition partition_calls :: "string \<Rightarrow> SearchOptions \<Rightarrow> (nat \<times> string \<times> SearchOptions) list" where
  "partition_calls searchQuery searchOptions =
     map (\<lambda>(idx, start, end').
            (idx, searchQuery, searchOptions\<lparr>EarliestTime := start, LatestTime := end'\<rparr>))
       (partition_windows searchOptions)"


section \<open>The outside world of a search\<close>

text \<open>
  What \<open>Search\<close> does not compute itself: the replies of the three REST calls of
  \<open>Connection\<close> (each an HTTP round trip), and the order in which Go's \<open>range\<close> visits
  the keys of a map, which the language leaves unspecified. The reply to the status
  call depends on the job and on how many times this search has polled it before; the
  visiting order may differ from one \<open>Search\<close> invocation to the next.
\<close>

record 'r World =
  SearchJobCreate :: "string \<Rightarrow> SearchOptions \<Rightarrow> error + string"
  SearchJobStatus :: "string \<Rightarrow> nat \<Rightarrow> error + SearchJobStatus"
  SearchJobResults :: "string \<Rightarrow> error + 'r list"
  range_order :: "string \<Rightarrow> SearchOptions \<Rightarrow> nat list"

text \<open>What one invocation of \<open>Search\<close> does to the outside, in order.\<close>

datatype event =
  Create string SearchOptions
  | Status string
  | Sleep nat
  | Results string
  | Launch nat string SearchOptions

fun is_Launch :: "event \<Rightarrow> bool" where
  "is_Launch (Launch idx q so) = True"
| "is_Launch ev = False"

section \<open>The polling loop of Search\<close>

text \<open>
  \<open>for waiting { ... time.Sleep(SEARCH_WAIT * time.Second) }\<close>. The loop has no bound of
  its own, so the model counts iterations down from \<open>fuel\<close>: \<open>Waiting\<close> says the loop
  is still running after \<open>fuel\<close> iterations, and carries what it has done so far. \<open>k\<close> is
  the number of polls made before, \<open>tr\<close> the events so far.
\<close>

datatype poll_result = Waiting "event list" | Exited "error option" "event list"

fun wait_loop :: "nat \<Rightarrow> 'r World \<Rightarrow> string \<Rightarrow> nat \<Rightarrow> event list \<Rightarrow> poll_result" where
  "wait_loop 0 c sid k tr = Waiting tr"
| "wait_loop (Suc fuel) c sid k tr =
     (case SearchJobStatus c sid k of
        Inl err \<Rightarrow> Exited (Some err) (tr @ [Status sid])
      | Inr jobStatus \<Rightarrow>
          (case IsDone jobStatus of
             (_, Some err) \<Rightarrow> Exited (Some err) (tr @ [Status sid])
           | (True, None) \<Rightarrow> Exited None (tr @ [Status sid])
           | (False, None) \<Rightarrow>
               wait_loop fuel c sid (Suc k) (tr @ [Status sid, Sleep SEARCH_WAIT])))"

section \<open>Merging the partitions\<close>

text \<open>
  \<^verbatim>\<open>for idx, res := range partitionedResults {
      if partitionedErr[idx] != nil { return results, partitionedErr[idx] }
      results = append(results, res...)
  }
  return results, nil\<close>
  The first argument is the order in which \<open>range\<close> visits the keys. The map
  \<open>partitionedErr\<close> stores \<open>nil\<close> for a partition that succeeded; a missing key reads as
  \<open>nil\<close> too.
\<close>

fun merge_loop ::
  "nat list \<Rightarrow> (nat \<rightharpoonup> 'r list) \<Rightarrow> (nat \<rightharpoonup> error option) \<Rightarrow> 'r list \<Rightarrow> 'r list \<times> error option" where
  "merge_loop [] partitionedResults partitionedErr results = (results, None)"
| "merge_loop (idx # rest) partitionedResults partitionedErr results =
     (case partitionedErr idx of
        Some (Some err) \<Rightarrow> (results, Some err)
      | _ \<Rightarrow>
          merge_loop rest partitionedResults partitionedErr
            (results @ (case partitionedResults idx of None \<Rightarrow> [] | Some res \<Rightarrow> res)))"

section \<open>Search\<close>

text \<open>
  The blocking search. Neither the polling nor the recursion into sub-windows is
  bounded in the code, so the model takes \<open>fuel\<close>: it bounds the polls of each job and
  the depth of the recursion, and \<open>None\<close> says that the fuel did not suffice. The
  result is what \<open>Search\<close> returns, \<open>(results, err)\<close>, with the events of this
  invocation (those of its sub-searches are their own).

  Each goroutine is modelled by what its call of \<open>Search\<close> returns: it writes
  \<open>partitionedErr[idx]\<close> and \<open>partitionedResults[idx]\<close> for its \<open>idx\<close>, and \<open>wg.Wait()\<close>
  returns once all five have, so the parent returns only if every sub-search does.
  How the goroutines interleave, and that they write the two maps without a lock, is
  outside the model.
\<close>

definition effective_options :: "SearchOptions \<Rightarrow> SearchOptions" where
  "effective_options searchOptions =
     (if MaxCount searchOptions = 0 then searchOptions\<lparr>MaxCount := DEFAULT_MAX_COUNT\<rparr>
      else searchOptions)"

definition truncated :: "'r list \<Rightarrow> SearchOptions \<Rightarrow> bool" where
  "truncated results searchOptions \<longleftrightarrow> int (length results) = MaxCount searchOptions"

definition may_partition :: "SearchOptions \<Rightarrow> bool" where
  "may_partition searchOptions \<longleftrightarrow>
     AllowPartition searchOptions \<and> UseEarliestTime searchOptions \<and> UseLatestTime searchOptions"

fun Search ::
  "nat \<Rightarrow> 'r World \<Rightarrow> string \<Rightarrow> SearchOptions \<Rightarrow> (('r list \<times> error option) \<times> event list) option" where
  "Search 0 c searchQuery searchOptions0 = None"
| "Search (Suc fuel) c searchQuery searchOptions0 =
     (let searchOptions = effective_options searchOptions0 in
      case SearchJobCreate c searchQuery searchOptions of
        Inl err \<Rightarrow> Some (([], Some err), [Create searchQuery searchOptions])
      | Inr sid \<Rightarrow>
          (case wait_loop fuel c sid 0 [Create searchQuery searchOptions] of
             Waiting tr \<Rightarrow> None
           | Exited (Some err) tr \<Rightarrow> Some (([], Some err), tr)
           | Exited None tr \<Rightarrow>
               (case SearchJobResults c sid of
                  Inl err \<Rightarrow> Some (([], Some err), tr @ [Results sid])
                | Inr results \<Rightarrow>
                    if truncated results searchOptions \<and> may_partition searchOptions then
                      (let calls = partition_calls searchQuery searchOptions in
                       case those (map (\<lambda>(idx, q, pso). Search fuel c q pso) calls) of
                         None \<Rightarrow> None
                       | Some outs \<Rightarrow>
                           (let keys = map fst calls;
                                partitionedErr = map_of (zip keys (map (snd \<circ> fst) outs));
                                partitionedResults = map_of (zip keys (map (fst \<circ> fst) outs))
                            in Some (merge_loop (range_order c searchQuery searchOptions)
                                       partitionedResults partitionedErr [],
                                     tr @ [Results sid] @
                                     map (\<lambda>(idx, q, pso). Launch idx q pso) calls)))
                    else Some ((results, None), tr @ [Results sid]))))"

section \<open>SearchAndExec\<close>

text \<open>
  The two handlers are the caller's; the model records their invocations in order.
  \<open>onSuccess\<close> is given by the error it returns for the rows it gets.
\<close>

datatype 'r handler_call = OnSuccess "'r list" | OnError error

definition SearchAndExec ::
  "nat \<Rightarrow> 'r World \<Rightarrow> string \<Rightarrow> SearchOptions \<Rightarrow> ('r list \<Rightarrow> error option) \<Rightarrow> 'r handler_call list option" where
  "SearchAndExec fuel c searchQuery searchOptions onSuccess =
     (case Search fuel c searchQuery searchOptions of
        None \<Rightarrow> None
      | Some ((results, Some err), tr) \<Rightarrow> Some [OnError err]
      | Some ((results, None), tr) \<Rightarrow>
          (case onSuccess results of
             Some err \<Rightarrow> Some [OnSuccess results, OnError err]
           | None \<Rightarrow> Some [OnSuccess results]))"

section \<open>Notions used in the statements\<close>

text \<open>
  The \<open>j\<close>-th poll of a job is pending when the status call succeeds and \<open>IsDone\<close>
  reports \<open>(false, nil)\<close> on its payload.
\<close>

definition poll_pending :: "'r World \<Rightarrow> string \<Rightarrow> nat \<Rightarrow> bool" where
  "poll_pending c sid j =
     (case SearchJobStatus c sid j of
        Inl err \<Rightarrow> False
      | Inr jobStatus \<Rightarrow> IsDone jobStatus = (False, None))"

text \<open>
  A poll ends the waiting when the status call itself fails, or the first entry of its
  payload has \<open>isDone\<close> or \<open>isFailed\<close> set.
\<close>

definition poll_terminal :: "'r World \<Rightarrow> string \<Rightarrow> nat \<Rightarrow> bool" where
  "poll_terminal c sid j =
     (case SearchJobStatus c sid j of
        Inl err \<Rightarrow> True
      | Inr jobStatus \<Rightarrow>
          (case Entry jobStatus of
             [] \<Rightarrow> False
           | e0 # _ \<Rightarrow> isDone (Content e0) \<or> isFailed (Content e0)))"

text \<open>The events of \<open>n\<close> iterations of the polling loop that found the job pending.\<close>

definition pending_polls :: "string \<Rightarrow> nat \<Rightarrow> event list" where
  "pending_polls sid n = concat (replicate n [Status sid, Sleep SEARCH_WAIT])"

section \<open>Example inputs\<close>

definition pending_status :: SearchJobStatus where
  "pending_status =
     \<lparr>Messages = [], Entry = [\<lparr>Content = \<lparr>isDone = False, isFailed = False\<rparr>\<rparr>]\<rparr>"

definition done_status :: SearchJobStatus where
  "done_status =
     \<lparr>Messages = [], Entry = [\<lparr>Content = \<lparr>isDone = True, isFailed = False\<rparr>\<rparr>]\<rparr>"

definition failed_status :: SearchJobStatus where
  "failed_status =
     \<lparr>Messages = [\<lparr>Type = ''ERROR'', Message = ''a''\<rparr>, \<lparr>Type = ''WARN'', Message = ''b''\<rparr>],
      Entry = [\<lparr>Content = \<lparr>isDone = False, isFailed = True\<rparr>\<rparr>]\<rparr>"

definition empty_status :: SearchJobStatus where
  "empty_status = \<lparr>Messages = [], Entry = []\<rparr>"

text \<open>
  A search over 500 seconds with a cap of three rows, and a server that answers it
  with three rows and its five sub-windows with fewer. Every job is pending at its
  first poll; \<open>last_status\<close> is what the later polls report. \<open>failing\<close> lists the
  jobs whose creation fails, \<open>ord\<close> is the order in which \<open>range\<close> visits the keys.
\<close>

definition demo_options :: SearchOptions where
  "demo_options =
     \<lparr>MaxCount = 3, UseEarliestTime = True, EarliestTime = Time 0 None,
      UseLatestTime = True, LatestTime = Time 500000000000 None, AllowPartition = True\<rparr>"

definition demo_sid :: "SearchOptions \<Rightarrow> string" where
  "demo_sid so =
     (if wall (LatestTime so) - wall (EarliestTime so) = 500000000000 then ''parent''
      else if wall (EarliestTime so) = 0 then ''p0''
      else if wall (EarliestTime so) = 100000000000 then ''p1''
      else if wall (EarliestTime so) = 200000000000 then ''p2''
      else if wall (EarliestTime so) = 300000000000 then ''p3''
      else ''p4'')"

definition demo_rows :: "string \<Rightarrow> nat list" where
  "demo_rows sid =
     (if sid = ''parent'' then [1, 2, 3]
      else if sid = ''p0'' then [10]
      else if sid = ''p1'' then [11, 12]
      else if sid = ''p2'' then []
      else if sid = ''p3'' then [13]
      else [14])"

definition demo_world :: "SearchJobStatus \<Rightarrow> string list \<Rightarrow> nat list \<Rightarrow> nat World" where
  "demo_world last_status failing ord =
     \<lparr>SearchJobCreate = (\<lambda>q so.
        if demo_sid so \<in> set failing then Inl (Error (''unable to create search job '' @ demo_sid so))
        else Inr (demo_sid so)),
      SearchJobStatus = (\<lambda>sid k. Inr (if k = 0 then pending_status else last_status)),
      SearchJobResults = (\<lambda>sid. Inr (demo_rows sid)),
      range_order = (\<lambda>q so. ord)\<rparr>"







text \<open>
  What the five sub-searches of the example return: their rows, and rows and errors
  when the job of partition 3 cannot be created.
\<close>

definition demo_sub_rows :: "nat \<Rightarrow> nat list" where
  "demo_sub_rows i = [[10], [11, 12], [], [13], [14]] ! i"

definition demo_sub_rows3 :: "nat \<Rightarrow> nat list" where
  "demo_sub_rows3 i = (if i = 3 then [] else demo_sub_rows i)"

definition demo_sub_errs :: "nat \<Rightarrow> error option" where
  "demo_sub_errs i = (if i = 3 then Some (Error ''unable to create search job p3'') else None)"

section \<open>Properties of IsDone\<close>

lemma message_loop_last:
  "message_loop es acc = (if es = [] then acc else render_message (last es))"
  by (induction es arbitrary: acc) auto

text \<open>What \<open>IsDone\<close> returns for a failed job: the rendering of the last message only.\<close>

lemma IsDone_failed_last_message:
  "Entry s = e0 # es \<Longrightarrow> isFailed (Content e0) \<Longrightarrow>
   IsDone s =
     (True, Some (Error (if Messages s = [] then [] else render_message (last (Messages s)))))"
  by (simp add: IsDone_def message_loop_last)

section \<open>The polling loop\<close>

lemma IsDone_cases:
  "IsDone s = (False, None) \<or> IsDone s = (True, None) \<or> (\<exists>err. IsDone s = (True, Some err))"
  by (simp add: IsDone_def split: list.split)

lemma wait_loop_step:
  "poll_pending c sid k \<Longrightarrow>
   wait_loop (Suc fuel) c sid k tr = wait_loop fuel c sid (Suc k) (tr @ [Status sid, Sleep SEARCH_WAIT])"
  by (auto simp: poll_pending_def split: sum.splits)

lemma wait_loop_pending:
  "(\<forall>j<n. poll_pending c sid (k + j)) \<Longrightarrow>
   wait_loop (n + fuel) c sid k tr = wait_loop fuel c sid (k + n) (tr @ pending_polls sid n)"
proof (induction n arbitrary: k tr)
  case 0
  then show ?case by (simp add: pending_polls_def)
next
  case (Suc n)
  have p0: "poll_pending c sid k" using Suc.prems by force
  have rest: "\<forall>j<n. poll_pending c sid (Suc k + j)" using Suc.prems by force
  have "wait_loop (Suc n + fuel) c sid k tr
        = wait_loop (n + fuel) c sid (Suc k) (tr @ [Status sid, Sleep SEARCH_WAIT])"
    using wait_loop_step [OF p0] by simp
  also have "\<dots> = wait_loop fuel c sid (Suc k + n) ((tr @ [Status sid, Sleep SEARCH_WAIT]) @ pending_polls sid n)"
    by (rule Suc.IH [OF rest])
  finally show ?case by (simp add: pending_polls_def)
qed

lemma wait_loop_exit:
  "\<not> poll_pending c sid k \<Longrightarrow>
   \<exists>e. wait_loop (Suc fuel) c sid k tr = Exited e (tr @ [Status sid])"
  using IsDone_cases by (fastforce simp: poll_pending_def split: sum.splits prod.splits option.splits bool.splits)

lemma wait_loop_Exited:
  "wait_loop fuel c sid k tr = Exited e tr' \<Longrightarrow>
   \<exists>n<fuel. (\<forall>j<n. poll_pending c sid (k + j)) \<and> \<not> poll_pending c sid (k + n) \<and>
            tr' = tr @ pending_polls sid n @ [Status sid]"
proof (induction fuel arbitrary: k tr)
  case 0
  then show ?case by simp
next
  case (Suc fuel)
  show ?case
  proof (cases "poll_pending c sid k")
    case False
    then obtain e' where "wait_loop (Suc fuel) c sid k tr = Exited e' (tr @ [Status sid])"
      using wait_loop_exit by blast
    with Suc.prems have "tr' = tr @ [Status sid]" by simp
    with False show ?thesis by (intro exI [of _ 0]) (simp add: pending_polls_def)
  next
    case True
    from Suc.prems wait_loop_step [OF True]
    have "wait_loop fuel c sid (Suc k) (tr @ [Status sid, Sleep SEARCH_WAIT]) = Exited e tr'"
      by simp
    from Suc.IH [OF this] obtain n where n: "n < fuel"
      "\<forall>j<n. poll_pending c sid (Suc k + j)" "\<not> poll_pending c sid (Suc k + n)"
      "tr' = (tr @ [Status sid, Sleep SEARCH_WAIT]) @ pending_polls sid n @ [Status sid]"
      by blast
    have "\<forall>j<Suc n. poll_pending c sid (k + j)"
      using True n(2) by (auto simp: less_Suc_eq_0_disj)
    with n show ?thesis
      by (intro exI [of _ "Suc n"]) (simp add: pending_polls_def)
  qed
qed


section \<open>Claims about IsDone and the polling loop\<close>

lemma IsDone_failed:
  "Entry s = e0 # es \<Longrightarrow> isFailed (Content e0) \<Longrightarrow>
   IsDone s = (True, Some (Error (message_loop (Messages s) [])))"
  by (simp add: IsDone_def)

text \<open>
  C10: for a status whose entry list is empty, \<open>IsDone\<close> returns \<open>(false, nil)\<close>:
  the payload counts as pending, neither an error nor completion. The polling loop
  therefore keeps polling: as long as the polls return such a payload, it sleeps after
  each of them and polls again. After \<open>n\<close> such polls it has not exited, has made
  exactly these \<open>n\<close> polls and \<open>n\<close> sleeps, and goes on with the next poll.
\<close>

theorem IsDone_empty_entries_pending:
  assumes "Entry s = []"
  shows "IsDone s = (False, None) \<and>
         ((\<forall>j<n. SearchJobStatus c sid (k + j) = Inr s) \<longrightarrow>
          wait_loop n c sid k tr = Waiting (tr @ pending_polls sid n) \<and>
          wait_loop (n + fuel) c sid k tr =
            wait_loop fuel c sid (k + n) (tr @ pending_polls sid n))"
proof -
  have d: "IsDone s = (False, None)" using assms by (simp add: IsDone_def)
  have "wait_loop n c sid k tr = Waiting (tr @ pending_polls sid n) \<and>
        wait_loop (n + fuel) c sid k tr = wait_loop fuel c sid (k + n) (tr @ pending_polls sid n)"
    if "\<forall>j<n. SearchJobStatus c sid (k + j) = Inr s"
  proof -
    from that d have p: "\<forall>j<n. poll_pending c sid (k + j)" by (simp add: poll_pending_def)
    from wait_loop_pending [OF p, of 0 tr]
    have "wait_loop n c sid k tr = Waiting (tr @ pending_polls sid n)" by simp
    with wait_loop_pending [OF p, of fuel tr] show ?thesis by simp
  qed
  with d show ?thesis by blast
qed

theorem IsDone_empty_entries_pending_witness:
  "Entry empty_status = [] \<and>
   SearchJobStatus (demo_world empty_status [] [0, 1, 2, 3, 4]) ''parent'' 1 = Inr empty_status \<and>
   SearchJobStatus (demo_world empty_status [] [0, 1, 2, 3, 4]) ''parent'' 2 = Inr empty_status \<and>
   IsDone empty_status = (False, None) \<and>
   wait_loop 2 (demo_world empty_status [] [0, 1, 2, 3, 4]) ''parent'' 1 [] =
     Waiting [Status ''parent'', Sleep 5, Status ''parent'', Sleep 5] \<and>
   wait_loop (2 + 1) (demo_world empty_status [] [0, 1, 2, 3, 4]) ''parent'' 1 [] =
     wait_loop 1 (demo_world empty_status [] [0, 1, 2, 3, 4]) ''parent'' 3
       [Status ''parent'', Sleep 5, Status ''parent'', Sleep 5]"
proof -
  let ?c = "demo_world empty_status [] [0, 1, 2, 3, 4]"
  have h: "Entry empty_status = []" by (simp add: empty_status_def)
  have r1: "SearchJobStatus ?c ''parent'' 1 = Inr empty_status"
    and r2: "SearchJobStatus ?c ''parent'' 2 = Inr empty_status"
    by (simp_all add: demo_world_def)
  have r: "\<forall>j<2. SearchJobStatus ?c ''parent'' (1 + j) = Inr empty_status"
    by (simp add: demo_world_def)
  have p: "[] @ pending_polls ''parent'' 2 = [Status ''parent'', Sleep 5, Status ''parent'', Sleep 5]"
    by (simp add: pending_polls_def SEARCH_WAIT_def numeral_2_eq_2)
  have k: "(1::nat) + 2 = 3" by simp
  from IsDone_empty_entries_pending [OF h, of 2 ?c "''parent''" 1 "[]" 1] r
  have "IsDone empty_status = (False, None)"
    and "wait_loop 2 ?c ''parent'' 1 [] = Waiting ([] @ pending_polls ''parent'' 2)"
    and "wait_loop (2 + 1) ?c ''parent'' 1 [] =
           wait_loop 1 ?c ''parent'' (1 + 2) ([] @ pending_polls ''parent'' 2)"
    by blast+
  then show ?thesis unfolding p k using h r1 r2 by (intro conjI)
qed

text \<open>
  C4: the claim asks for the concatenation of all diagnostic entries as the error
  message. \<open>IsDone\<close> assigns \<open>errorMsg\<close> in each iteration instead of appending to it
  (lemma \<open>message_loop_last\<close>), so the message is the rendering of the last entry only.
  On a failed status with the two entries \<open>ERROR: a\<close> and \<open>WARN: b\<close> the message is
  \<open>WARN: b\<close> followed by a newline, not the concatenation of both.
\<close>

theorem IsDone_failed_message_last_only:
  "IsDone failed_status = (True, Some (Error (''WARN: b'' @ [CHR 0x0A]))) \<and>
   all_messages failed_status = ''ERROR: a'' @ [CHR 0x0A] @ ''WARN: b'' @ [CHR 0x0A] \<and>
   IsDone failed_status \<noteq> (True, Some (Error (all_messages failed_status)))"
  by (simp add: IsDone_def failed_status_def all_messages_def render_message_def)

text \<open>
  C5: for a status with a non-empty entry list whose first entry has \<open>isFailed\<close> set,
  \<open>IsDone\<close> returns \<open>true\<close> with a non-nil error, whatever \<open>isDone\<close> is. When a poll of
  \<open>Search\<close> returns such a status (after any number \<open>n\<close> of pending polls), the loop
  stops and \<open>Search\<close> returns that error with no rows; its last event is that poll, so
  the results are not fetched.
\<close>

theorem IsDone_failed_stops_search:
  assumes "Entry s = e0 # es" and "isFailed (Content e0)"
  shows "\<exists>err. IsDone s = (True, Some err) \<and>
           (\<forall>(c :: 'r World) q so sid n fuel.
              SearchJobCreate c q (effective_options so) = Inr sid \<and>
              (\<forall>j<n. poll_pending c sid j) \<and> SearchJobStatus c sid n = Inr s \<longrightarrow>
              Search (Suc (Suc (n + fuel))) c q so =
                Some (([], Some err),
                      Create q (effective_options so) # pending_polls sid n @ [Status sid]))"
proof -
  define err where "err = Error (message_loop (Messages s) [])"
  have d: "IsDone s = (True, Some err)"
    using assms by (simp add: IsDone_failed err_def)
  have "Search (Suc (Suc (n + fuel))) c q so =
          Some (([], Some err), Create q (effective_options so) # pending_polls sid n @ [Status sid])"
    if cr: "SearchJobCreate c q (effective_options so) = Inr sid"
      and pe: "\<forall>j<n. poll_pending c sid j" and st: "SearchJobStatus c sid n = Inr s"
    for c :: "'r World" and q so sid n fuel
  proof -
    have pe': "\<forall>j<n. poll_pending c sid (0 + j)" using pe by simp
    have "wait_loop (n + Suc fuel) c sid 0 [Create q (effective_options so)]
          = wait_loop (Suc fuel) c sid (0 + n) ([Create q (effective_options so)] @ pending_polls sid n)"
      by (rule wait_loop_pending [OF pe'])
    also have "\<dots> = Exited (Some err) (([Create q (effective_options so)] @ pending_polls sid n) @ [Status sid])"
      using st d by simp
    finally have "wait_loop (Suc (n + fuel)) c sid 0 [Create q (effective_options so)]
          = Exited (Some err) (Create q (effective_options so) # pending_polls sid n @ [Status sid])"
      by simp
    then show ?thesis using cr by (simp add: Let_def)
  qed
  with d show ?thesis by blast
qed

theorem IsDone_failed_stops_search_witness:
  "Entry failed_status = [\<lparr>Content = \<lparr>isDone = False, isFailed = True\<rparr>\<rparr>] \<and>
   isFailed (Content \<lparr>Content = \<lparr>isDone = False, isFailed = True\<rparr>\<rparr>) \<and>
   IsDone failed_status = (True, Some (Error (''WARN: b'' @ [CHR 0x0A]))) \<and>
   Search 3 (demo_world failed_status [] [0, 1, 2, 3, 4]) ''q'' demo_options =
     Some (([], Some (Error (''WARN: b'' @ [CHR 0x0A]))),
           [Create ''q'' demo_options, Status ''parent'', Sleep 5, Status ''parent''])"
proof -
  let ?c = "demo_world failed_status [] [0, 1, 2, 3, 4]"
  have h1: "Entry failed_status = [\<lparr>Content = \<lparr>isDone = False, isFailed = True\<rparr>\<rparr>]"
    by (simp add: failed_status_def)
  have h2: "isFailed (Content \<lparr>Content = \<lparr>isDone = False, isFailed = True\<rparr>\<rparr>)" by simp
  have v: "IsDone failed_status = (True, Some (Error (''WARN: b'' @ [CHR 0x0A])))"
    by (simp add: IsDone_def failed_status_def render_message_def)
  have eo: "effective_options demo_options = demo_options"
    by (simp add: effective_options_def demo_options_def)
  have cr: "SearchJobCreate ?c ''q'' (effective_options demo_options) = Inr ''parent''"
    by (simp add: eo) (simp add: demo_world_def demo_sid_def demo_options_def)
  have pe: "\<forall>j<1. poll_pending ?c ''parent'' j"
    by (simp add: poll_pending_def demo_world_def pending_status_def IsDone_def)
  have st: "SearchJobStatus ?c ''parent'' 1 = Inr failed_status"
    by (simp add: demo_world_def)
  from IsDone_failed_stops_search [OF h1 h2] obtain err where
    e1: "IsDone failed_status = (True, Some err)" and
    e2: "\<And>(c :: nat World) q so sid n fuel.
              SearchJobCreate c q (effective_options so) = Inr sid \<and>
              (\<forall>j<n. poll_pending c sid j) \<and> SearchJobStatus c sid n = Inr failed_status \<Longrightarrow>
              Search (Suc (Suc (n + fuel))) c q so =
                Some (([], Some err),
                      Create q (effective_options so) # pending_polls sid n @ [Status sid])"
    by blast
  from e1 v have err: "err = Error (''WARN: b'' @ [CHR 0x0A])" by simp
  have "Search (Suc (Suc (1 + 0))) ?c ''q'' demo_options =
          Some (([], Some err),
                Create ''q'' (effective_options demo_options) # pending_polls ''parent'' 1 @ [Status ''parent''])"
    by (rule e2) (use cr pe st in blast)
  then have "Search 3 ?c ''q'' demo_options =
     Some (([], Some (Error (''WARN: b'' @ [CHR 0x0A]))),
           [Create ''q'' demo_options, Status ''parent'', Sleep 5, Status ''parent''])"
    by (simp add: err eo pending_polls_def SEARCH_WAIT_def numeral_3_eq_3)
  with h1 h2 v show ?thesis by blast
qed

lemma poll_terminal_iff: "poll_terminal c sid j \<longleftrightarrow> \<not> poll_pending c sid j"
  by (auto simp: poll_terminal_def poll_pending_def IsDone_def split: sum.splits list.splits)

text \<open>
  C9: the polling loop does not exit while every poll succeeds and reports neither
  done nor failed. For every number \<open>n\<close> of iterations: if the first \<open>n\<close> polls are
  pending, the loop is still waiting after them, having made \<open>n\<close> polls, each followed
  by a sleep of \<open>SEARCH_WAIT = 5\<close> seconds (no bound on \<open>n\<close>, no growing interval).
  The loop exits only at a poll that errors or reports done or failed, all polls
  before it having been pending. A job whose polls are all pending keeps \<open>Search\<close> from
  returning, whatever the fuel.
\<close>

theorem polling_continues_while_pending:
  "((\<forall>j<n. poll_pending c sid j) \<longrightarrow>
      wait_loop n c sid 0 tr = Waiting (tr @ pending_polls sid n)) \<and>
   (wait_loop n c sid 0 tr = Exited e tr' \<longrightarrow>
      (\<exists>k<n. (\<forall>j<k. poll_pending c sid j) \<and> poll_terminal c sid k \<and>
              tr' = tr @ pending_polls sid k @ [Status sid])) \<and>
   ((\<forall>j. poll_pending c sid j) \<and> SearchJobCreate c q (effective_options so) = Inr sid \<longrightarrow>
      Search n c q so = None)"
proof (intro conjI impI)
  assume "\<forall>j<n. poll_pending c sid j"
  then have "\<forall>j<n. poll_pending c sid (0 + j)" by simp
  from wait_loop_pending [OF this, of 0 tr]
  show "wait_loop n c sid 0 tr = Waiting (tr @ pending_polls sid n)" by simp
next
  assume "wait_loop n c sid 0 tr = Exited e tr'"
  from wait_loop_Exited [OF this]
  show "\<exists>k<n. (\<forall>j<k. poll_pending c sid j) \<and> poll_terminal c sid k \<and>
              tr' = tr @ pending_polls sid k @ [Status sid]"
    by (simp add: poll_terminal_iff)
next
  assume a: "(\<forall>j. poll_pending c sid j) \<and> SearchJobCreate c q (effective_options so) = Inr sid"
  show "Search n c q so = None"
  proof (cases n)
    case 0
    then show ?thesis by simp
  next
    case (Suc m)
    from a have "\<forall>j<m. poll_pending c sid (0 + j)" by simp
    from wait_loop_pending [OF this, of 0 "[Create q (effective_options so)]"]
    have "wait_loop m c sid 0 [Create q (effective_options so)] =
            Waiting ([Create q (effective_options so)] @ pending_polls sid m)"
      by simp
    with a Suc show ?thesis by (simp add: Let_def)
  qed
qed

theorem polling_continues_while_pending_witness:
  "poll_pending (demo_world pending_status [] [0, 1, 2, 3, 4]) ''parent'' 0 \<and>
   poll_pending (demo_world pending_status [] [0, 1, 2, 3, 4]) ''parent'' 1 \<and>
   poll_pending (demo_world pending_status [] [0, 1, 2, 3, 4]) ''parent'' 2 \<and>
   wait_loop 3 (demo_world pending_status [] [0, 1, 2, 3, 4]) ''parent'' 0 [] =
     Waiting [Status ''parent'', Sleep 5, Status ''parent'', Sleep 5, Status ''parent'', Sleep 5] \<and>
   (\<forall>j. poll_pending (demo_world pending_status [] [0, 1, 2, 3, 4]) ''parent'' j) \<and>
   SearchJobCreate (demo_world pending_status [] [0, 1, 2, 3, 4]) ''q'' (effective_options demo_options)
     = Inr ''parent'' \<and>
   Search 3 (demo_world pending_status [] [0, 1, 2, 3, 4]) ''q'' demo_options = None \<and>
   wait_loop 3 (demo_world done_status [] [0, 1, 2, 3, 4]) ''parent'' 0 [] =
     Exited None [Status ''parent'', Sleep 5, Status ''parent''] \<and>
   (\<exists>k<3. (\<forall>j<k. poll_pending (demo_world done_status [] [0, 1, 2, 3, 4]) ''parent'' j) \<and>
           poll_terminal (demo_world done_status [] [0, 1, 2, 3, 4]) ''parent'' k \<and>
           [Status ''parent'', Sleep 5, Status ''parent''] =
             [] @ pending_polls ''parent'' k @ [Status ''parent''])"
proof -
  let ?p = "demo_world pending_status [] [0, 1, 2, 3, 4]"
  let ?d = "demo_world done_status [] [0, 1, 2, 3, 4]"
  have pe: "\<forall>j. poll_pending ?p ''parent'' j"
    by (simp add: poll_pending_def demo_world_def pending_status_def IsDone_def)
  have cr: "SearchJobCreate ?p ''q'' (effective_options demo_options) = Inr ''parent''"
    by (simp add: demo_world_def demo_sid_def demo_options_def effective_options_def)
  have ex: "wait_loop 3 ?d ''parent'' 0 [] = Exited None [Status ''parent'', Sleep 5, Status ''parent'']"
    by (simp add: numeral_3_eq_3 demo_world_def pending_status_def done_status_def IsDone_def
        SEARCH_WAIT_def)
  note t1 = polling_continues_while_pending [of 3 ?p "''parent''" "[]" None "[]" "''q''" demo_options]
  note t2 = polling_continues_while_pending [of 3 ?d "''parent''" "[]" None
      "[Status ''parent'', Sleep 5, Status ''parent'']" "''q''" demo_options]
  have w: "wait_loop 3 ?p ''parent'' 0 [] =
     Waiting [Status ''parent'', Sleep 5, Status ''parent'', Sleep 5, Status ''parent'', Sleep 5]"
    using t1 pe by (simp add: pending_polls_def SEARCH_WAIT_def numeral_3_eq_3)
  have s: "Search 3 ?p ''q'' demo_options = None"
    using t1 pe cr by blast
  have x: "\<exists>k<3. (\<forall>j<k. poll_pending ?d ''parent'' j) \<and> poll_terminal ?d ''parent'' k \<and>
           [Status ''parent'', Sleep 5, Status ''parent''] =
             [] @ pending_polls ''parent'' k @ [Status ''parent'']"
    using t2 ex by blast
  from pe cr w s ex x show ?thesis by blast
qed

section \<open>SearchAndExec\<close>

lemma demo_search_failed:
  "Search 3 (demo_world failed_status [] [0, 1, 2, 3, 4]) ''q'' demo_options =
     Some (([], Some (Error (''WARN: b'' @ [CHR 0x0A]))),
           [Create ''q'' demo_options, Status ''parent'', Sleep 5, Status ''parent''])"
  by code_simp

lemma demo_search_rows:
  "map_option fst (Search 4 (demo_world done_status [] [0, 1, 2, 3, 4]) ''q'' demo_options) =
     Some ([10, 11, 12, 13, 14], None)"
  by code_simp

text \<open>
  C8: if \<open>Search\<close> fails, \<open>SearchAndExec\<close> calls the error handler once, with that
  error, and never the success handler. If \<open>Search\<close> succeeds, it calls the success
  handler with the rows; when that returns an error, it then calls the error handler
  once with the handler's error; when that returns \<open>nil\<close>, the error handler is not
  called. \<open>SearchAndExec\<close> returns exactly when \<open>Search\<close> does.
\<close>

theorem SearchAndExec_handlers:
  "(Search fuel c q so = Some ((results, Some err), tr) \<longrightarrow>
      SearchAndExec fuel c q so onSuccess = Some [OnError err]) \<and>
   (Search fuel c q so = Some ((results, None), tr) \<and> onSuccess results = Some err' \<longrightarrow>
      SearchAndExec fuel c q so onSuccess = Some [OnSuccess results, OnError err']) \<and>
   (Search fuel c q so = Some ((results, None), tr) \<and> onSuccess results = None \<longrightarrow>
      SearchAndExec fuel c q so onSuccess = Some [OnSuccess results]) \<and>
   (Search fuel c q so = None \<longleftrightarrow> SearchAndExec fuel c q so onSuccess = None)"
  by (auto simp: SearchAndExec_def split: option.splits prod.splits)


theorem SearchAndExec_handlers_witness:
  "SearchAndExec 3 (demo_world failed_status [] [0, 1, 2, 3, 4]) ''q'' demo_options (\<lambda>rows. None) =
     Some [OnError (Error (''WARN: b'' @ [CHR 0x0A]))] \<and>
   SearchAndExec 4 (demo_world done_status [] [0, 1, 2, 3, 4]) ''q'' demo_options
       (\<lambda>rows. Some (Error ''handler failed'')) =
     Some [OnSuccess [10, 11, 12, 13, 14], OnError (Error ''handler failed'')] \<and>
   SearchAndExec 4 (demo_world done_status [] [0, 1, 2, 3, 4]) ''q'' demo_options (\<lambda>rows. None) =
     Some [OnSuccess [10, 11, 12, 13, 14]]"
proof -
  let ?f = "demo_world failed_status [] [0, 1, 2, 3, 4]"
  let ?d = "demo_world done_status [] [0, 1, 2, 3, 4]"
  obtain tr where ok: "Search 4 ?d ''q'' demo_options = Some (([10, 11, 12, 13, 14], None), tr)"
    using demo_search_rows by (cases "Search 4 ?d ''q'' demo_options") auto
  have a: "SearchAndExec 3 ?f ''q'' demo_options (\<lambda>rows. None) =
     Some [OnError (Error (''WARN: b'' @ [CHR 0x0A]))]"
    using SearchAndExec_handlers [of 3 ?f "''q''" demo_options "[]" "Error (''WARN: b'' @ [CHR 0x0A])"
        "[Create ''q'' demo_options, Status ''parent'', Sleep 5, Status ''parent'']" "\<lambda>rows. None"]
      demo_search_failed by blast
  have b: "SearchAndExec 4 ?d ''q'' demo_options (\<lambda>rows. Some (Error ''handler failed'')) =
     Some [OnSuccess [10, 11, 12, 13, 14], OnError (Error ''handler failed'')]"
    using SearchAndExec_handlers [of 4 ?d "''q''" demo_options "[10, 11, 12, 13, 14]" _ tr
        "\<lambda>rows. Some (Error ''handler failed'')" "Error ''handler failed''"] ok by blast
  have c: "SearchAndExec 4 ?d ''q'' demo_options (\<lambda>rows. None) = Some [OnSuccess [10, 11, 12, 13, 14]]"
    using SearchAndExec_handlers [of 4 ?d "''q''" demo_options "[10, 11, 12, 13, 14]" _ tr
        "\<lambda>rows. None"] ok by blast
  from a b c show ?thesis by blast
qed

section \<open>The partition loop and the shape of Search\<close>


lemma partition_loop_closed:
  "partition_loop k i step startT =
     map (\<lambda>j. (i + j, ((\<lambda>t. Add t step) ^^ j) startT, ((\<lambda>t. Add t step) ^^ Suc j) startT))
       [0..<k]"
proof (induction k arbitrary: i startT)
  case 0
  then show ?case by simp
next
  case (Suc k)
  let ?F = "\<lambda>t. Add t step"
  have "map (\<lambda>j. (i + j, (?F ^^ j) startT, (?F ^^ Suc j) startT)) [0..<Suc k]
        = (i, startT, Add startT step) #
          map (\<lambda>j. (i + Suc j, (?F ^^ Suc j) startT, (?F ^^ Suc (Suc j)) startT)) [0..<k]"
    by (simp add: upt_conv_Cons map_Suc_upt [symmetric] del: upt_Suc)
  also have "\<dots> = (i, startT, Add startT step) # partition_loop k (Suc i) step (Add startT step)"
    by (simp add: Suc.IH funpow_Suc_right del: funpow.simps)
  finally show ?case by (simp add: Let_def)
qed

lemma partition_windows_closed:
  "partition_windows so =
     map (\<lambda>j. (j, ((\<lambda>t. Add t (partition_step so)) ^^ j) (EarliestTime so),
                 ((\<lambda>t. Add t (partition_step so)) ^^ Suc j) (EarliestTime so))) [0..<5]"
  by (simp add: partition_windows_def partition_loop_closed PARTITION_COUNT_def)

lemma partition_calls_keys: "map fst (partition_calls q so) = [0..<5]"
  by (simp add: partition_calls_def partition_windows_closed comp_def map_upt_eqI)

lemma partition_calls_length: "length (partition_calls q so) = 5"
  using arg_cong [OF partition_calls_keys, of length q so] by simp

lemma those_length: "those xs = Some ys \<Longrightarrow> length ys = length xs"
  by (induction xs arbitrary: ys) (auto split: option.splits)

lemma those_nth: "those xs = Some ys \<Longrightarrow> i < length xs \<Longrightarrow> xs ! i = Some (ys ! i)"
proof (induction xs arbitrary: ys i)
  case Nil
  then show ?case by simp
next
  case (Cons x xs)
  then show ?case by (cases i) (auto split: option.splits)
qed

lemma those_None_iff: "those xs = None \<longleftrightarrow> None \<in> set xs"
  by (induction xs) (auto split: option.splits)

lemma is_Launch_pending_polls: "filter is_Launch (pending_polls sid n) = []"
  by (induction n) (simp_all add: pending_polls_def)

lemma filter_is_Launch_launches:
  "filter is_Launch (map (\<lambda>(idx, q, pso). Launch idx q pso) calls) =
     map (\<lambda>(idx, q, pso). Launch idx q pso) calls"
  by (induction calls) auto

lemma wait_loop_no_Launch:
  assumes "wait_loop fuel c sid 0 [Create q so] = Exited e tr"
  shows "filter is_Launch tr = []"
proof -
  from wait_loop_Exited [OF assms] obtain n where
    "tr = [Create q so] @ pending_polls sid n @ [Status sid]" by blast
  then show ?thesis by (simp add: is_Launch_pending_polls)
qed

lemma Search_fetched:
  assumes "SearchJobCreate c q (effective_options so) = Inr sid"
    and "wait_loop fuel c sid 0 [Create q (effective_options so)] = Exited None tr"
    and "SearchJobResults c sid = Inr results"
  shows "Search (Suc fuel) c q so =
     (if truncated results (effective_options so) \<and> may_partition (effective_options so) then
        (case those (map (\<lambda>(idx, q, pso). Search fuel c q pso)
                      (partition_calls q (effective_options so))) of
           None \<Rightarrow> None
         | Some outs \<Rightarrow>
             Some (merge_loop (range_order c q (effective_options so))
                     (map_of (zip [0..<5] (map (fst \<circ> fst) outs)))
                     (map_of (zip [0..<5] (map (snd \<circ> fst) outs))) [],
                   tr @ [Results sid] @
                   map (\<lambda>(idx, q, pso). Launch idx q pso) (partition_calls q (effective_options so))))
      else Some ((results, None), tr @ [Results sid]))"
  using assms by (auto simp: Let_def partition_calls_keys split: option.splits)


declare Search.simps [simp del]

lemma effective_options_simps:
  "MaxCount (effective_options so) = (if MaxCount so = 0 then DEFAULT_MAX_COUNT else MaxCount so)"
  "UseEarliestTime (effective_options so) = UseEarliestTime so"
  "UseLatestTime (effective_options so) = UseLatestTime so"
  "AllowPartition (effective_options so) = AllowPartition so"
  "EarliestTime (effective_options so) = EarliestTime so"
  "LatestTime (effective_options so) = LatestTime so"
  by (simp_all add: effective_options_def)

lemma partition_condition:
  "truncated results (effective_options so) \<and> may_partition (effective_options so) \<longleftrightarrow>
   int (length results) = (if MaxCount so = 0 then 10000 else MaxCount so) \<and>
   AllowPartition so \<and> UseEarliestTime so \<and> UseLatestTime so"
  by (simp add: truncated_def may_partition_def effective_options_simps DEFAULT_MAX_COUNT_def)

section \<open>Claims about the partition coordinator\<close>

text \<open>
  C2: once the job is created, the polling has ended with done and the rows are
  fetched, \<open>Search\<close> fans out exactly when the number of rows equals the effective
  max-count (\<open>MaxCount\<close>, or 10000 when \<open>MaxCount\<close> is zero) and \<open>AllowPartition\<close>,
  \<open>UseEarliestTime\<close> and \<open>UseLatestTime\<close> are all set. In every other case it returns
  the fetched rows as they are, with no error, and launches no sub-search. When it
  fans out, it returns exactly when all five sub-searches return, and its events then
  end with the five launches.
\<close>

theorem Search_partitions_iff:
  assumes cr: "SearchJobCreate c q (effective_options so) = Inr sid"
    and wl: "wait_loop fuel c sid 0 [Create q (effective_options so)] = Exited None tr"
    and fe: "SearchJobResults c sid = Inr results"
  shows "(\<not> (int (length results) = (if MaxCount so = 0 then 10000 else MaxCount so) \<and>
             AllowPartition so \<and> UseEarliestTime so \<and> UseLatestTime so) \<longrightarrow>
            Search (Suc fuel) c q so = Some ((results, None), tr @ [Results sid]) \<and>
            filter is_Launch (tr @ [Results sid]) = []) \<and>
         (int (length results) = (if MaxCount so = 0 then 10000 else MaxCount so) \<and>
            AllowPartition so \<and> UseEarliestTime so \<and> UseLatestTime so \<longrightarrow>
            (Search (Suc fuel) c q so = None \<longleftrightarrow>
               (\<exists>(idx, q', pso) \<in> set (partition_calls q (effective_options so)).
                  Search fuel c q' pso = None)) \<and>
            (\<forall>out tr'. Search (Suc fuel) c q so = Some (out, tr') \<longrightarrow>
               filter is_Launch tr' =
                 map (\<lambda>(idx, q', pso). Launch idx q' pso) (partition_calls q (effective_options so)) \<and>
               length (filter is_Launch tr') = 5))"
proof (intro conjI impI)
  assume n: "\<not> (int (length results) = (if MaxCount so = 0 then 10000 else MaxCount so) \<and>
             AllowPartition so \<and> UseEarliestTime so \<and> UseLatestTime so)"
  have "\<not> (truncated results (effective_options so) \<and> may_partition (effective_options so))"
    using n partition_condition [of results so] by blast
  then show "Search (Suc fuel) c q so = Some ((results, None), tr @ [Results sid])"
    by (simp only: Search_fetched [OF cr wl fe] if_False)
  show "filter is_Launch (tr @ [Results sid]) = []"
    using wait_loop_no_Launch [OF wl] by simp
next
  assume y: "int (length results) = (if MaxCount so = 0 then 10000 else MaxCount so) \<and>
             AllowPartition so \<and> UseEarliestTime so \<and> UseLatestTime so"
  have p: "truncated results (effective_options so) \<and> may_partition (effective_options so)"
    using y partition_condition [of results so] by blast
  let ?calls = "partition_calls q (effective_options so)"
  let ?subs = "map (\<lambda>(idx, q, pso). Search fuel c q pso) ?calls"
  have eq: "Search (Suc fuel) c q so =
     (case those ?subs of
        None \<Rightarrow> None
      | Some outs \<Rightarrow>
          Some (merge_loop (range_order c q (effective_options so))
                  (map_of (zip [0..<5] (map (fst \<circ> fst) outs)))
                  (map_of (zip [0..<5] (map (snd \<circ> fst) outs))) [],
                tr @ [Results sid] @ map (\<lambda>(idx, q, pso). Launch idx q pso) ?calls))"
    by (simp only: Search_fetched [OF cr wl fe] p simp_thms if_True)
  have "Search (Suc fuel) c q so = None \<longleftrightarrow> those ?subs = None"
    by (simp add: eq split: option.splits)
  also have "\<dots> \<longleftrightarrow> (\<exists>(idx, q', pso) \<in> set ?calls. Search fuel c q' pso = None)"
    by (force simp: those_None_iff image_iff)
  finally show "Search (Suc fuel) c q so = None \<longleftrightarrow>
      (\<exists>(idx, q', pso) \<in> set ?calls. Search fuel c q' pso = None)" .
  show "\<forall>out tr'. Search (Suc fuel) c q so = Some (out, tr') \<longrightarrow>
          filter is_Launch tr' = map (\<lambda>(idx, q', pso). Launch idx q' pso) ?calls \<and>
          length (filter is_Launch tr') = 5"
  proof (intro allI impI)
    fix out tr'
    assume "Search (Suc fuel) c q so = Some (out, tr')"
    then have "tr' = tr @ [Results sid] @ map (\<lambda>(idx, q, pso). Launch idx q pso) ?calls"
      by (auto simp: eq split: option.splits)
    then have "filter is_Launch tr' = map (\<lambda>(idx, q', pso). Launch idx q' pso) ?calls"
      using wait_loop_no_Launch [OF wl] by (simp add: filter_is_Launch_launches)
    then show "filter is_Launch tr' = map (\<lambda>(idx, q', pso). Launch idx q' pso) ?calls \<and>
          length (filter is_Launch tr') = 5"
      by (simp add: partition_calls_length)
  qed
qed

lemma Search_Launch:
  assumes s: "Search (Suc fuel) c q so = Some (out, tr)" and l: "Launch idx q' pso \<in> set tr"
  shows "(idx, q', pso) \<in> set (partition_calls q (effective_options so)) \<and>
         Search fuel c q' pso \<noteq> None"
proof -
  let ?so = "effective_options so"
  have nl: "Launch idx q' pso \<notin> set xs" if "filter is_Launch xs = []" for xs
  proof
    assume "Launch idx q' pso \<in> set xs"
    then have "Launch idx q' pso \<in> set (filter is_Launch xs)" by simp
    with that show False by simp
  qed
  show ?thesis
  proof (cases "SearchJobCreate c q ?so")
    case (Inl err)
    with s l show ?thesis by (auto simp: Search.simps Let_def)
  next
    case (Inr sid)
    show ?thesis
    proof (cases "wait_loop fuel c sid 0 [Create q ?so]")
      case (Waiting tr0)
      with s Inr show ?thesis by (simp add: Search.simps Let_def)
    next
      case (Exited e tr0)
      note nl0 = nl [OF wait_loop_no_Launch [OF Exited]]
      show ?thesis
      proof (cases e)
        case (Some err)
        with s l Inr Exited nl0 show ?thesis by (auto simp: Search.simps Let_def)
      next
        case None
        note wl = Exited [unfolded None]
        show ?thesis
        proof (cases "SearchJobResults c sid")
          case (Inl err)
          with s l Inr wl nl0 show ?thesis by (auto simp: Search.simps Let_def)
        next
          case fe: (Inr results)
          note eq = Search_fetched [OF Inr wl fe]
          show ?thesis
          proof (cases "truncated results ?so \<and> may_partition ?so")
            case False
            with s [unfolded eq] l nl0 show ?thesis by auto
          next
            case True
            let ?subs = "map (\<lambda>(idx, q, pso). Search fuel c q pso) (partition_calls q ?so)"
            from s [unfolded eq] True obtain outs where th: "those ?subs = Some outs"
              and tr: "tr = tr0 @ [Results sid] @
                  map (\<lambda>(idx, q, pso). Launch idx q pso) (partition_calls q ?so)"
              by (auto split: option.splits)
            from l nl0 tr have m: "(idx, q', pso) \<in> set (partition_calls q ?so)"
              by auto
            have "None \<notin> set ?subs" using th those_None_iff [of ?subs] by simp
            moreover from m have "Search fuel c q' pso \<in> set ?subs"
              by (force simp: image_iff)
            ultimately have "Search fuel c q' pso \<noteq> None" by metis
            with m show ?thesis by simp
          qed
        qed
      qed
    qed
  qed
qed

text \<open>
  C7: every sub-search that \<open>Search\<close> launches gets the query of its parent and a copy of
  the parent's \<open>searchOptions\<close> in which only \<open>EarliestTime\<close> and \<open>LatestTime\<close> are
  replaced, by the bounds of its sub-window. The parent's \<open>searchOptions\<close> is its
  parameter as \<open>Search\<close> holds it at that point, with the default filled in for a zero
  \<open>MaxCount\<close>; all five copies are taken from this same value, so deriving one copy
  changes neither the parent's value nor another copy. The sub-search is invoked with
  these arguments.
\<close>

theorem sub_search_options:
  assumes "Search (Suc fuel) c q so = Some (out, tr)" and "Launch idx q' pso \<in> set tr"
  shows "q' = q \<and>
         pso = (effective_options so)\<lparr>EarliestTime := EarliestTime pso, LatestTime := LatestTime pso\<rparr> \<and>
         (idx, EarliestTime pso, LatestTime pso) \<in> set (partition_windows (effective_options so)) \<and>
         MaxCount pso = (if MaxCount so = 0 then DEFAULT_MAX_COUNT else MaxCount so) \<and>
         UseEarliestTime pso = UseEarliestTime so \<and>
         UseLatestTime pso = UseLatestTime so \<and>
         AllowPartition pso = AllowPartition so \<and>
         Search fuel c q' pso \<noteq> None"
proof -
  from Search_Launch [OF assms]
  have m: "(idx, q', pso) \<in> set (partition_calls q (effective_options so))"
    and r: "Search fuel c q' pso \<noteq> None" by simp_all
  from m obtain start end' where
    w: "(idx, start, end') \<in> set (partition_windows (effective_options so))"
    and q: "q' = q"
    and p: "pso = (effective_options so)\<lparr>EarliestTime := start, LatestTime := end'\<rparr>"
    by (auto simp: partition_calls_def)
  from p have "EarliestTime pso = start" "LatestTime pso = end'" by simp_all
  with w q p r show ?thesis by (simp add: effective_options_simps)
qed

lemma merge_loop_all_ok:
  "(\<forall>i\<in>set ord. pe i = Some None \<or> pe i = None) \<Longrightarrow>
   merge_loop ord pr pe acc =
     (acc @ concat (map (\<lambda>i. case pr i of None \<Rightarrow> [] | Some res \<Rightarrow> res) ord), None)"
  by (induction ord arbitrary: acc) auto

lemma merge_loop_first_error:
  "(\<forall>j\<in>set pre. pe j = Some None \<or> pe j = None) \<Longrightarrow> pe i = Some (Some e) \<Longrightarrow>
   merge_loop (pre @ i # post) pr pe acc =
     (acc @ concat (map (\<lambda>i. case pr i of None \<Rightarrow> [] | Some res \<Rightarrow> res) pre), Some e)"
  by (induction pre arbitrary: acc) auto

lemma partition_calls_nth:
  "i < 5 \<Longrightarrow> \<exists>pso. partition_calls q so ! i = (i, q, pso)"
  by (simp add: partition_calls_def partition_windows_closed)

lemma map_of_zip_upt:
  "length ys = n \<Longrightarrow> i < n \<Longrightarrow> map_of (zip [0..<n] ys) i = Some (ys ! i)"
  using map_of_zip_nth [of "[0..<n]" ys i] by simp

text \<open>What the merge returns, given what the five sub-searches returned.\<close>

lemma Search_merge:
  assumes cr: "SearchJobCreate c q (effective_options so) = Inr sid"
    and wl: "wait_loop fuel c sid 0 [Create q (effective_options so)] = Exited None tr"
    and fe: "SearchJobResults c sid = Inr results"
    and tp: "truncated results (effective_options so)" "may_partition (effective_options so)"
    and sub: "\<forall>i<5. map_option fst
                 (Search fuel c q (snd (snd (partition_calls q (effective_options so) ! i)))) =
               Some (rows i, errs i)"
  shows "\<exists>pr pe. (\<forall>i<5. pr i = Some (rows i) \<and> pe i = Some (errs i)) \<and>
           map_option fst (Search (Suc fuel) c q so) =
             Some (merge_loop (range_order c q (effective_options so)) pr pe [])"
proof -
  let ?calls = "partition_calls q (effective_options so)"
  let ?f = "\<lambda>(idx, q, pso). Search fuel c q pso"
  have call: "?f (?calls ! i) = Search fuel c q (snd (snd (?calls ! i)))" if "i < 5" for i
    using partition_calls_nth [OF that, of q "effective_options so"] by auto
  have some: "\<exists>tri. ?f (?calls ! i) = Some ((rows i, errs i), tri)" if "i < 5" for i
    using sub that call [OF that] by (cases "?f (?calls ! i)") auto
  have "None \<notin> set (map ?f ?calls)"
  proof
    assume "None \<in> set (map ?f ?calls)"
    then obtain i where "i < length (map ?f ?calls)" "map ?f ?calls ! i = None"
      unfolding in_set_conv_nth by blast
    then have "i < length ?calls" "?f (?calls ! i) = None"
      by simp_all
    with some [of i] show False by (simp add: partition_calls_length)
  qed
  then obtain outs where outs: "those (map ?f ?calls) = Some outs"
    using those_None_iff [of "map ?f ?calls"] by (cases "those (map ?f ?calls)") auto
  have len: "length outs = 5"
    using those_length [OF outs] by (simp add: partition_calls_length)
  have nth: "fst (outs ! i) = (rows i, errs i)" if "i < 5" for i
  proof -
    have "map ?f ?calls ! i = Some (outs ! i)"
      using those_nth [OF outs, of i] that by (simp add: partition_calls_length)
    then have "?f (?calls ! i) = Some (outs ! i)"
      using that by (simp add: partition_calls_length)
    with some [OF that] show ?thesis by auto
  qed
  let ?pr = "map_of (zip [0..<5] (map (fst \<circ> fst) outs))"
  let ?pe = "map_of (zip [0..<5] (map (snd \<circ> fst) outs))"
  have "?pr i = Some (rows i) \<and> ?pe i = Some (errs i)" if "i < 5" for i
    using that len nth [OF that] by (simp add: map_of_zip_upt)
  moreover have "map_option fst (Search (Suc fuel) c q so) =
      Some (merge_loop (range_order c q (effective_options so)) ?pr ?pe [])"
    by (simp only: Search_fetched [OF cr wl fe] tp simp_thms if_True outs option.case
        option.map fst_conv)
  ultimately show ?thesis by blast
qed

text \<open>
  The error path of the merge: the error of the first failing partition in visiting
  order is returned together with the rows of the partitions visited before it.
\<close>

lemma Search_first_error_rows:
  assumes cr: "SearchJobCreate c q (effective_options so) = Inr sid"
    and wl: "wait_loop fuel c sid 0 [Create q (effective_options so)] = Exited None tr"
    and fe: "SearchJobResults c sid = Inr results"
    and tp: "truncated results (effective_options so)" "may_partition (effective_options so)"
    and sub: "\<forall>i<5. map_option fst
                 (Search fuel c q (snd (snd (partition_calls q (effective_options so) ! i)))) =
               Some (rows i, errs i)"
    and ord: "range_order c q (effective_options so) = pre @ i # post"
    and in5: "\<forall>j\<in>set pre. j < 5" "i < 5"
    and ok: "\<forall>j\<in>set pre. errs j = None" and bad: "errs i = Some e"
  shows "map_option fst (Search (Suc fuel) c q so) = Some (concat (map rows pre), Some e)"
proof -
  from Search_merge [OF cr wl fe tp sub] obtain pr pe where
    m: "\<forall>i<5. pr i = Some (rows i) \<and> pe i = Some (errs i)"
    and s: "map_option fst (Search (Suc fuel) c q so) = Some (merge_loop (pre @ i # post) pr pe [])"
    unfolding ord by blast
  have p: "\<forall>j\<in>set pre. pe j = Some None \<or> pe j = None" using m in5 ok by simp
  have i: "pe i = Some (Some e)" using m in5 bad by simp
  have "map (\<lambda>i. case pr i of None \<Rightarrow> [] | Some res \<Rightarrow> res) pre = map rows pre"
    using m in5 by (intro map_cong) simp_all
  with merge_loop_first_error [OF p i, of post pr "[]"]
  have "merge_loop (pre @ i # post) pr pe [] = (concat (map rows pre), Some e)" by simp
  with s show ?thesis by (simp only:)
qed

text \<open>
  C6, as amended: \<open>Search\<close> merges by ranging over a Go map, so the partitions are
  visited in an order \<open>ord\<close> that the language leaves open (each index once). When all
  five sub-searches succeed, the result is the concatenation of their row sequences
  in that visiting order, each sequence unchanged. When some fail, the error returned
  is that of the first failing partition in the visiting order.
\<close>

theorem merge_in_visiting_order:
  assumes cr: "SearchJobCreate c q (effective_options so) = Inr sid"
    and wl: "wait_loop fuel c sid 0 [Create q (effective_options so)] = Exited None tr"
    and fe: "SearchJobResults c sid = Inr results"
    and tp: "truncated results (effective_options so)" "may_partition (effective_options so)"
    and sub: "\<forall>i<5. map_option fst
                 (Search fuel c q (snd (snd (partition_calls q (effective_options so) ! i)))) =
               Some (rows i, errs i)"
    and ord: "range_order c q (effective_options so) = ord" "distinct ord" "set ord = {0..<5}"
  shows "((\<forall>i<5. errs i = None) \<longrightarrow>
            map_option fst (Search (Suc fuel) c q so) = Some (concat (map rows ord), None)) \<and>
         (\<forall>pre i post e.
            ord = pre @ i # post \<and> (\<forall>j\<in>set pre. errs j = None) \<and> errs i = Some e \<longrightarrow>
            (\<exists>rs. map_option fst (Search (Suc fuel) c q so) = Some (rs, Some e)))"
proof -
  from Search_merge [OF cr wl fe tp sub] obtain pr pe where
    m: "\<forall>i<5. pr i = Some (rows i) \<and> pe i = Some (errs i)"
    and s: "map_option fst (Search (Suc fuel) c q so) = Some (merge_loop ord pr pe [])"
    unfolding ord(1) by blast
  have in5: "i < 5" if "i \<in> set ord" for i using that ord(3) by simp
  have a: "map_option fst (Search (Suc fuel) c q so) = Some (concat (map rows ord), None)"
    if ok: "\<forall>i<5. errs i = None"
  proof -
    have "\<forall>i\<in>set ord. pe i = Some None \<or> pe i = None" using m ok in5 by simp
    from merge_loop_all_ok [OF this, of pr "[]"]
    have "merge_loop ord pr pe [] =
        (concat (map (\<lambda>i. case pr i of None \<Rightarrow> [] | Some res \<Rightarrow> res) ord), None)" by simp
    moreover have "map (\<lambda>i. case pr i of None \<Rightarrow> [] | Some res \<Rightarrow> res) ord = map rows ord"
      using m in5 by (intro map_cong) simp_all
    ultimately show ?thesis using s by simp
  qed
  have b: "\<exists>rs. map_option fst (Search (Suc fuel) c q so) = Some (rs, Some e)"
    if h: "ord = pre @ i # post \<and> (\<forall>j\<in>set pre. errs j = None) \<and> errs i = Some e"
    for pre i post e
  proof -
    have "set pre \<subseteq> set ord" "i \<in> set ord" using h by auto
    then have p: "\<forall>j\<in>set pre. pe j = Some None \<or> pe j = None" and i: "pe i = Some (Some e)"
      using m in5 h by auto
    from h have o: "ord = pre @ i # post" by blast
    have "merge_loop ord pr pe [] =
        ([] @ concat (map (\<lambda>i. case pr i of None \<Rightarrow> [] | Some res \<Rightarrow> res) pre), Some e)"
      unfolding o by (rule merge_loop_first_error [OF p i])
    with s have "map_option fst (Search (Suc fuel) c q so) =
        Some ([] @ concat (map (\<lambda>i. case pr i of None \<Rightarrow> [] | Some res \<Rightarrow> res) pre), Some e)"
      by (simp only:)
    then show ?thesis by (rule exI)
  qed
  from a b show ?thesis by blast
qed

lemma demo_search_partitioned:
  "Search 4 (demo_world done_status [] [0, 1, 2, 3, 4]) ''q'' demo_options =
     Some (([10, 11, 12, 13, 14], None),
           [Create ''q'' demo_options, Status ''parent'', Sleep 5, Status ''parent'',
            Results ''parent'',
            Launch 0 ''q'' (demo_options\<lparr>EarliestTime := Time 0 None, LatestTime := Time 100000000000 None\<rparr>),
            Launch 1 ''q'' (demo_options\<lparr>EarliestTime := Time 100000000000 None, LatestTime := Time 200000000000 None\<rparr>),
            Launch 2 ''q'' (demo_options\<lparr>EarliestTime := Time 200000000000 None, LatestTime := Time 300000000000 None\<rparr>),
            Launch 3 ''q'' (demo_options\<lparr>EarliestTime := Time 300000000000 None, LatestTime := Time 400000000000 None\<rparr>),
            Launch 4 ''q'' (demo_options\<lparr>EarliestTime := Time 400000000000 None, LatestTime := Time 500000000000 None\<rparr>)])"
  by code_simp

theorem Search_partitions_iff_witness:
  "SearchJobCreate (demo_world done_status [] [0, 1, 2, 3, 4]) ''q''
     (effective_options (demo_options\<lparr>AllowPartition := False\<rparr>)) = Inr ''parent'' \<and>
   wait_loop 2 (demo_world done_status [] [0, 1, 2, 3, 4]) ''parent'' 0
     [Create ''q'' (effective_options (demo_options\<lparr>AllowPartition := False\<rparr>))] =
     Exited None [Create ''q'' (demo_options\<lparr>AllowPartition := False\<rparr>),
                  Status ''parent'', Sleep 5, Status ''parent''] \<and>
   SearchJobResults (demo_world done_status [] [0, 1, 2, 3, 4]) ''parent'' = Inr [1, 2, 3] \<and>
   \<not> AllowPartition (demo_options\<lparr>AllowPartition := False\<rparr>) \<and>
   Search 3 (demo_world done_status [] [0, 1, 2, 3, 4]) ''q'' (demo_options\<lparr>AllowPartition := False\<rparr>) =
     Some (([1, 2, 3], None),
           [Create ''q'' (demo_options\<lparr>AllowPartition := False\<rparr>),
            Status ''parent'', Sleep 5, Status ''parent'', Results ''parent'']) \<and>
   SearchJobCreate (demo_world done_status [] [0, 1, 2, 3, 4]) ''q''
     (effective_options demo_options) = Inr ''parent'' \<and>
   wait_loop 3 (demo_world done_status [] [0, 1, 2, 3, 4]) ''parent'' 0
     [Create ''q'' (effective_options demo_options)] =
     Exited None [Create ''q'' demo_options, Status ''parent'', Sleep 5, Status ''parent''] \<and>
   int (length [1, 2, 3 :: nat]) = MaxCount demo_options \<and>
   AllowPartition demo_options \<and> UseEarliestTime demo_options \<and> UseLatestTime demo_options \<and>
   (\<exists>out tr'. Search 4 (demo_world done_status [] [0, 1, 2, 3, 4]) ''q'' demo_options = Some (out, tr') \<and>
      filter is_Launch tr' =
        map (\<lambda>(idx, q', pso). Launch idx q' pso) (partition_calls ''q'' (effective_options demo_options)) \<and>
      length (filter is_Launch tr') = 5)"
proof -
  let ?d = "demo_world done_status [] [0, 1, 2, 3, 4]"
  let ?np = "demo_options\<lparr>AllowPartition := False\<rparr>"
  have cr1: "SearchJobCreate ?d ''q'' (effective_options ?np) = Inr ''parent''"
    by code_simp
  have wl1: "wait_loop 2 ?d ''parent'' 0 [Create ''q'' (effective_options ?np)] =
      Exited None [Create ''q'' ?np, Status ''parent'', Sleep 5, Status ''parent'']"
    by code_simp
  have fe: "SearchJobResults ?d ''parent'' = Inr [1, 2, 3]"
    by code_simp
  have n1: "\<not> AllowPartition ?np" by simp
  have cr2: "SearchJobCreate ?d ''q'' (effective_options demo_options) = Inr ''parent''"
    by code_simp
  have wl2: "wait_loop 3 ?d ''parent'' 0 [Create ''q'' (effective_options demo_options)] =
      Exited None [Create ''q'' demo_options, Status ''parent'', Sleep 5, Status ''parent'']"
    by code_simp
  have c2: "int (length [1, 2, 3 :: nat]) = MaxCount demo_options"
    "AllowPartition demo_options" "UseEarliestTime demo_options" "UseLatestTime demo_options"
    by (simp_all add: demo_options_def)
  have a: "Search 3 ?d ''q'' ?np =
     Some (([1, 2, 3], None),
           [Create ''q'' ?np, Status ''parent'', Sleep 5, Status ''parent'', Results ''parent''])"
    using Search_partitions_iff [OF cr1 wl1 fe] n1 by (simp add: numeral_3_eq_3)
  have m: "MaxCount demo_options \<noteq> 0" by (simp add: demo_options_def)
  obtain out tr' where s: "Search (Suc 3) ?d ''q'' demo_options = Some (out, tr')"
    using demo_search_partitioned by (simp add: eval_nat_numeral)
  have cond: "int (length [1, 2, 3 :: nat]) =
        (if MaxCount demo_options = 0 then 10000 else MaxCount demo_options) \<and>
      AllowPartition demo_options \<and> UseEarliestTime demo_options \<and> UseLatestTime demo_options"
    using c2 m by simp
  from Search_partitions_iff [OF cr2 wl2 fe] cond
  have "\<forall>out tr'. Search (Suc 3) ?d ''q'' demo_options = Some (out, tr') \<longrightarrow>
      filter is_Launch tr' =
        map (\<lambda>(idx, q', pso). Launch idx q' pso) (partition_calls ''q'' (effective_options demo_options)) \<and>
      length (filter is_Launch tr') = 5"
    by blast
  with s
  have "filter is_Launch tr' =
        map (\<lambda>(idx, q', pso). Launch idx q' pso) (partition_calls ''q'' (effective_options demo_options)) \<and>
      length (filter is_Launch tr') = 5"
    by blast
  with s have b: "\<exists>out tr'. Search 4 ?d ''q'' demo_options = Some (out, tr') \<and>
      filter is_Launch tr' =
        map (\<lambda>(idx, q', pso). Launch idx q' pso) (partition_calls ''q'' (effective_options demo_options)) \<and>
      length (filter is_Launch tr') = 5"
    by (auto simp: eval_nat_numeral)
  from cr1 wl1 fe n1 a cr2 wl2 c2 b show ?thesis by blast
qed

theorem sub_search_options_witness:
  "(\<exists>out tr. Search (Suc 3) (demo_world done_status [] [0, 1, 2, 3, 4]) ''q'' demo_options =
               Some (out, tr) \<and>
      Launch 1 ''q'' (demo_options\<lparr>EarliestTime := Time 100000000000 None, LatestTime := Time 200000000000 None\<rparr>) \<in> set tr) \<and>
   (demo_options\<lparr>EarliestTime := Time 100000000000 None, LatestTime := Time 200000000000 None\<rparr>) = (effective_options demo_options)\<lparr>EarliestTime := EarliestTime (demo_options\<lparr>EarliestTime := Time 100000000000 None, LatestTime := Time 200000000000 None\<rparr>), LatestTime := LatestTime (demo_options\<lparr>EarliestTime := Time 100000000000 None, LatestTime := Time 200000000000 None\<rparr>)\<rparr> \<and>
   (1, EarliestTime (demo_options\<lparr>EarliestTime := Time 100000000000 None, LatestTime := Time 200000000000 None\<rparr>), LatestTime (demo_options\<lparr>EarliestTime := Time 100000000000 None, LatestTime := Time 200000000000 None\<rparr>)) \<in> set (partition_windows (effective_options demo_options)) \<and>
   MaxCount (demo_options\<lparr>EarliestTime := Time 100000000000 None, LatestTime := Time 200000000000 None\<rparr>) = (if MaxCount demo_options = 0 then DEFAULT_MAX_COUNT else MaxCount demo_options) \<and>
   UseEarliestTime (demo_options\<lparr>EarliestTime := Time 100000000000 None, LatestTime := Time 200000000000 None\<rparr>) = UseEarliestTime demo_options \<and>
   UseLatestTime (demo_options\<lparr>EarliestTime := Time 100000000000 None, LatestTime := Time 200000000000 None\<rparr>) = UseLatestTime demo_options \<and>
   AllowPartition (demo_options\<lparr>EarliestTime := Time 100000000000 None, LatestTime := Time 200000000000 None\<rparr>) = AllowPartition demo_options \<and>
   Search 3 (demo_world done_status [] [0, 1, 2, 3, 4]) ''q'' (demo_options\<lparr>EarliestTime := Time 100000000000 None, LatestTime := Time 200000000000 None\<rparr>) \<noteq> None"
proof -
  let ?d = "demo_world done_status [] [0, 1, 2, 3, 4]"
  obtain out tr where s: "Search (Suc 3) ?d ''q'' demo_options = Some (out, tr)"
    and l: "Launch 1 ''q'' (demo_options\<lparr>EarliestTime := Time 100000000000 None, LatestTime := Time 200000000000 None\<rparr>) \<in> set tr"
    using demo_search_partitioned by (simp add: eval_nat_numeral)
  from s l have "\<exists>out tr. Search (Suc 3) ?d ''q'' demo_options = Some (out, tr) \<and>
      Launch 1 ''q'' (demo_options\<lparr>EarliestTime := Time 100000000000 None, LatestTime := Time 200000000000 None\<rparr>) \<in> set tr"
    by blast
  with sub_search_options [OF s l] show ?thesis by blast
qed

text \<open>
  C3: the claim asks that no rows of other partitions accompany the error of a failed
  sub-search. In the example, partition 0 succeeds with the row \<open>10\<close> and the job of
  partition 1 cannot be created; the keys are visited in ascending order. \<open>Search\<close>
  returns the error of partition 1 together with the row of partition 0 (in general,
  lemma \<open>Search_first_error_rows\<close>), whereas every other error return of \<open>Search\<close>
  carries the empty slice.
\<close>

theorem Search_partition_error_keeps_rows:
  "map_option fst (Search 3 (demo_world done_status [''p1''] [0, 1, 2, 3, 4]) ''q''
      (demo_options\<lparr>EarliestTime := Time 0 None, LatestTime := Time 100000000000 None\<rparr>)) = Some ([10], None) \<and>
   map_option fst (Search 3 (demo_world done_status [''p1''] [0, 1, 2, 3, 4]) ''q''
      (demo_options\<lparr>EarliestTime := Time 100000000000 None, LatestTime := Time 200000000000 None\<rparr>)) =
     Some ([], Some (Error ''unable to create search job p1'')) \<and>
   map_option fst (Search 4 (demo_world done_status [''p1''] [0, 1, 2, 3, 4]) ''q'' demo_options) =
     Some ([10], Some (Error ''unable to create search job p1''))"
  by code_simp

text \<open>
  C6 as stated fails: with the visiting order \<open>1, 0, 2, 3, 4\<close> and five successful
  sub-searches, the rows of partition 1 come before those of partition 0; and when
  partitions 0 and 1 both fail, the error returned is that of partition 1.
\<close>

theorem ascending_order_counterexample:
  "map (\<lambda>(idx, q, pso). map_option fst (Search 3 (demo_world done_status [] [1, 0, 2, 3, 4]) q pso))
     (partition_calls ''q'' (effective_options demo_options)) =
     [Some ([10], None), Some ([11, 12], None), Some ([], None), Some ([13], None), Some ([14], None)] \<and>
   map_option fst (Search 4 (demo_world done_status [] [1, 0, 2, 3, 4]) ''q'' demo_options) =
     Some ([11, 12, 10, 13, 14], None) \<and>
   [11, 12, 10, 13, 14] \<noteq> [10] @ [11, 12] @ [] @ [13] @ [14 :: nat] \<and>
   map (\<lambda>(idx, q, pso). map_option (snd \<circ> fst)
          (Search 3 (demo_world done_status [''p0'', ''p1''] [1, 0, 2, 3, 4]) q pso))
     (partition_calls ''q'' (effective_options demo_options)) =
     [Some (Some (Error ''unable to create search job p0'')),
      Some (Some (Error ''unable to create search job p1'')), Some None, Some None, Some None] \<and>
   map_option (snd \<circ> fst)
     (Search 4 (demo_world done_status [''p0'', ''p1''] [1, 0, 2, 3, 4]) ''q'' demo_options) =
     Some (Some (Error ''unable to create search job p1''))"
  by code_simp

theorem merge_in_visiting_order_witness:
  "SearchJobCreate (demo_world done_status [] [1, 0, 2, 3, 4]) ''q'' (effective_options demo_options) =
     Inr ''parent'' \<and>
   wait_loop 3 (demo_world done_status [] [1, 0, 2, 3, 4]) ''parent'' 0
     [Create ''q'' (effective_options demo_options)] =
     Exited None [Create ''q'' demo_options, Status ''parent'', Sleep 5, Status ''parent''] \<and>
   SearchJobResults (demo_world done_status [] [1, 0, 2, 3, 4]) ''parent'' = Inr [1, 2, 3] \<and>
   truncated [1, 2, 3 :: nat] (effective_options demo_options) \<and>
   may_partition (effective_options demo_options) \<and>
   list_all (\<lambda>i. map_option fst
       (Search 3 (demo_world done_status [] [1, 0, 2, 3, 4]) ''q''
          (snd (snd (partition_calls ''q'' (effective_options demo_options) ! i)))) =
       Some (demo_sub_rows i, None)) [0, 1, 2, 3, 4] \<and>
   range_order (demo_world done_status [] [1, 0, 2, 3, 4]) ''q'' (effective_options demo_options) =
     [1, 0, 2, 3, 4] \<and>
   distinct [1, 0, 2, 3, 4 :: nat] \<and> set [1, 0, 2, 3, 4 :: nat] = {0..<5} \<and>
   map_option fst (Search (Suc 3) (demo_world done_status [] [1, 0, 2, 3, 4]) ''q'' demo_options) =
     Some ([11, 12, 10, 13, 14], None) \<and>
   list_all (\<lambda>i. map_option fst
       (Search 3 (demo_world done_status [''p3''] [1, 0, 2, 3, 4]) ''q''
          (snd (snd (partition_calls ''q'' (effective_options demo_options) ! i)))) =
       Some (demo_sub_rows3 i, demo_sub_errs i)) [0, 1, 2, 3, 4] \<and>
   (\<exists>rs. map_option fst
       (Search (Suc 3) (demo_world done_status [''p3''] [1, 0, 2, 3, 4]) ''q'' demo_options) =
       Some (rs, Some (Error ''unable to create search job p3'')))"
proof -
  let ?w = "demo_world done_status [] [1, 0, 2, 3, 4]"
  let ?f = "demo_world done_status [''p3''] [1, 0, 2, 3, 4]"
  let ?so = "effective_options demo_options"
  have cr: "SearchJobCreate ?w ''q'' ?so = Inr ''parent''" by code_simp
  have wl: "wait_loop 3 ?w ''parent'' 0 [Create ''q'' ?so] =
      Exited None [Create ''q'' demo_options, Status ''parent'', Sleep 5, Status ''parent'']"
    by code_simp
  have fe: "SearchJobResults ?w ''parent'' = Inr [1, 2, 3]" by code_simp
  have crf: "SearchJobCreate ?f ''q'' ?so = Inr ''parent''" by code_simp
  have wlf: "wait_loop 3 ?f ''parent'' 0 [Create ''q'' ?so] =
      Exited None [Create ''q'' demo_options, Status ''parent'', Sleep 5, Status ''parent'']"
    by code_simp
  have fef: "SearchJobResults ?f ''parent'' = Inr [1, 2, 3]" by code_simp
  have tp1: "truncated [1, 2, 3 :: nat] ?so" by code_simp
  have tp2: "may_partition ?so" by code_simp
  note tp = tp1 tp2
  have subl: "list_all (\<lambda>i. map_option fst
       (Search 3 ?w ''q'' (snd (snd (partition_calls ''q'' ?so ! i)))) = Some (demo_sub_rows i, None))
       [0, 1, 2, 3, 4]"
    by code_simp
  have subfl: "list_all (\<lambda>i. map_option fst
       (Search 3 ?f ''q'' (snd (snd (partition_calls ''q'' ?so ! i)))) =
       Some (demo_sub_rows3 i, demo_sub_errs i)) [0, 1, 2, 3, 4]"
    by code_simp
  have five: "i < 5 \<longleftrightarrow> i \<in> set [0, 1, 2, 3, 4]" for i :: nat
    by (simp add: eval_nat_numeral less_Suc_eq)
  have sub: "\<forall>i<5. map_option fst (Search 3 ?w ''q'' (snd (snd (partition_calls ''q'' ?so ! i)))) =
      Some (demo_sub_rows i, (\<lambda>i. None) i)"
    using subl unfolding list_all_iff five by blast
  have subf: "\<forall>i<5. map_option fst (Search 3 ?f ''q'' (snd (snd (partition_calls ''q'' ?so ! i)))) =
      Some (demo_sub_rows3 i, demo_sub_errs i)"
    using subfl unfolding list_all_iff five by blast
  have ro: "range_order ?w ''q'' ?so = [1, 0, 2, 3, 4]" by (simp add: demo_world_def)
  have rof: "range_order ?f ''q'' ?so = [1, 0, 2, 3, 4]" by (simp add: demo_world_def)
  have d: "distinct [1, 0, 2, 3, 4 :: nat]" by simp
  have st: "set [1, 0, 2, 3, 4 :: nat] = {0..<5}" by code_simp
  note t1 = merge_in_visiting_order [OF cr wl fe tp sub ro d st]
  note t2 = merge_in_visiting_order [OF crf wlf fef tp subf rof d st]
  have "map_option fst (Search (Suc 3) ?w ''q'' demo_options) =
      Some (concat (map demo_sub_rows [1, 0, 2, 3, 4]), None)"
    using t1 by blast
  moreover have "concat (map demo_sub_rows [1, 0, 2, 3, 4]) = [11, 12, 10, 13, 14]" by code_simp
  ultimately have a: "map_option fst (Search (Suc 3) ?w ''q'' demo_options) =
      Some ([11, 12, 10, 13, 14], None)" by simp
  have "[1, 0, 2, 3, 4] = [1, 0, 2] @ 3 # [4 :: nat] \<and> (\<forall>j\<in>set [1, 0, 2]. demo_sub_errs j = None) \<and>
      demo_sub_errs 3 = Some (Error ''unable to create search job p3'')"
    by (simp add: demo_sub_errs_def)
  with t2 have b: "\<exists>rs. map_option fst (Search (Suc 3) ?f ''q'' demo_options) =
       Some (rs, Some (Error ''unable to create search job p3''))"
    by blast
  from cr wl fe tp subl ro d st a subfl b show ?thesis by blast
qed


section \<open>Rounding to float64\<close>





























section \<open>The seconds of a Duration and their fifth\<close>

















section \<open>The step of the partition\<close>















section \<open>The sub-windows\<close>












end
